theory Spec2Isabelle
  imports Main "HOL-Library.Word"
begin

unbundle bit_operations_syntax

section \<open>Data model\<close>

text \<open>
  The interpreter of \<^verbatim>\<open>main.go\<close>. Go's \<^verbatim>\<open>byte\<close> is an 8-bit word, Go's
  \<^verbatim>\<open>int\<close> is modelled as \<^typ>\<open>int\<close> (a 64-bit overflow would need a tape of
  \<open>2^63\<close> cells). The instruction buffer is a \<^typ>\<open>string\<close>: a list of 8-bit characters,
  which is what \<^verbatim>\<open>ioutil.ReadFile\<close> delivers.
\<close>

type_synonym byte = "8 word"

text \<open>
  Every way a run can abort. \<^verbatim>\<open>log.Fatal\<close> is called at three places of the source
  with a message of its own, and once with the error of \<^verbatim>\<open>ReadByte\<close>:
  \<^item> \<open>OutOfBoundsError\<close>: "can not move data pointer left, already at beginning of data";
  \<^item> \<open>UnbalancedLoopError\<close>: "unexpected end of closure, not in any closure";
  \<^item> \<open>UnterminatedLoopError\<close>: "unexpected end of instructions, still in a closure";
  \<^item> \<open>IOError\<close>: the error returned by \<^verbatim>\<open>p.stdin.ReadByte()\<close>;
  \<^item> \<open>IndexPanic\<close>: the Go runtime's panic on a slice index out of range.
\<close>

datatype error =
    OutOfBoundsError
  | UnbalancedLoopError
  | UnterminatedLoopError
  | IOError
  | IndexPanic

record Closure =
  Skip :: bool
  Root :: bool
  Start :: int

text \<open>
  The \<^verbatim>\<open>Processor\<close> struct. \<open>Debug\<close> is the field of the variant of the file that has
  the \<^verbatim>\<open>--debug\<close> flag; the other variant behaves as \<open>Debug = False\<close>. \<open>stdin\<close> is the
  bytes the buffered reader has still to deliver; \<open>stdout\<close> is the bytes written to the
  process's standard output so far, oldest first.
\<close>

record Processor =
  Data :: "byte list"
  DataPointer :: int
  Debug :: bool
  stdin :: "byte list"
  stdout :: "byte list"
  instructionPointer :: int
  instructionBuffer :: string
  closures :: "Closure list"

definition InstMoveRight :: char where "InstMoveRight = CHR ''>''"
definition InstMoveLeft :: char where "InstMoveLeft = CHR ''<''"
definition InstIncrement :: char where "InstIncrement = CHR ''+''"
definition InstDecrement :: char where "InstDecrement = CHR ''-''"
definition InstOutput :: char where "InstOutput = CHR ''.''"
definition InstInput :: char where "InstInput = CHR '',''"
definition InstLoopStart :: char where "InstLoopStart = CHR ''[''"
definition InstLoopEnd :: char where "InstLoopEnd = CHR '']''"

definition DefaultPageSize :: int where "DefaultPageSize = 1024"

text \<open>
  \<^verbatim>\<open>NewProcessor\<close>: a tape of one page of zeros, cursor 0, the root closure alone on
  the stack, an empty instruction buffer. The argument is what standard input holds.
\<close>

definition NewProcessor :: "byte list \<Rightarrow> Processor" where
  "NewProcessor input =
     \<lparr> Data = replicate (nat DefaultPageSize) 0,
       DataPointer = 0,
       Debug = False,
       stdin = input,
       stdout = [],
       instructionPointer = 0,
       instructionBuffer = [],
       closures = [\<lparr> Skip = False, Root = True, Start = 0 \<rparr>] \<rparr>"

definition Stdin :: "byte list \<Rightarrow> Processor \<Rightarrow> Processor" where
  "Stdin r p = p\<lparr> stdin := r \<rparr>"

section \<open>Tape\<close>

text \<open>A slice index is in range when \<open>0 \<le> i < len\<close>; anything else panics in Go.\<close>

definition inRange :: "int \<Rightarrow> 'a list \<Rightarrow> bool" where
  "inRange i xs = (0 \<le> i \<and> i < int (length xs))"

text \<open>
  \<^verbatim>\<open>ensureDataSize\<close>. In the branch taken \<open>DataPointer \<ge> len \<ge> 0\<close>, so Go's truncating
  division agrees with \<open>div\<close> and the size handed to \<^verbatim>\<open>make\<close> is positive.
\<close>

definition ensureDataSize :: "Processor \<Rightarrow> Processor" where
  "ensureDataSize p =
     (if DataPointer p \<ge> int (length (Data p)) then
        let nextPagedSize = (1 + (DataPointer p div DefaultPageSize)) * DefaultPageSize
        in p\<lparr> Data := Data p @ replicate (nat (1 + nextPagedSize - int (length (Data p)))) 0 \<rparr>
      else p)"

definition Load :: "string \<Rightarrow> Processor \<Rightarrow> Processor" where
  "Load instructions p =
     p\<lparr> instructionBuffer := instructions, instructionPointer := 0 \<rparr>"

text \<open>\<^verbatim>\<open>p.closures[0].Skip\<close>: the flag of the top closure; panics on an empty stack.\<close>

definition topSkip :: "Processor \<Rightarrow> error + bool" where
  "topSkip p = (case closures p of [] \<Rightarrow> Inl IndexPanic | c # _ \<Rightarrow> Inr (Skip c))"

text \<open>\<^verbatim>\<open>Current\<close>: \<^verbatim>\<open>p.Data[p.DataPointer]\<close>.\<close>

definition Current :: "Processor \<Rightarrow> error + byte" where
  "Current p =
     (if inRange (DataPointer p) (Data p) then Inr (Data p ! nat (DataPointer p))
      else Inl IndexPanic)"

definition Increment :: "Processor \<Rightarrow> error + Processor" where
  "Increment p =
     (case topSkip p of
        Inl e \<Rightarrow> Inl e
      | Inr True \<Rightarrow> Inr p
      | Inr False \<Rightarrow>
          (case Current p of
             Inl e \<Rightarrow> Inl e
           | Inr v \<Rightarrow> Inr (p\<lparr> Data := (Data p)[nat (DataPointer p) := v + 1] \<rparr>)))"

definition Decrement :: "Processor \<Rightarrow> error + Processor" where
  "Decrement p =
     (case topSkip p of
        Inl e \<Rightarrow> Inl e
      | Inr True \<Rightarrow> Inr p
      | Inr False \<Rightarrow>
          (case Current p of
             Inl e \<Rightarrow> Inl e
           | Inr v \<Rightarrow> Inr (p\<lparr> Data := (Data p)[nat (DataPointer p) := v - 1] \<rparr>)))"

definition MoveRight :: "Processor \<Rightarrow> error + Processor" where
  "MoveRight p =
     (case topSkip p of
        Inl e \<Rightarrow> Inl e
      | Inr True \<Rightarrow> Inr p
      | Inr False \<Rightarrow> Inr (ensureDataSize (p\<lparr> DataPointer := DataPointer p + 1 \<rparr>)))"

definition MoveLeft :: "Processor \<Rightarrow> error + Processor" where
  "MoveLeft p =
     (case topSkip p of
        Inl e \<Rightarrow> Inl e
      | Inr True \<Rightarrow> Inr p
      | Inr False \<Rightarrow>
          (if DataPointer p = 0 then Inl OutOfBoundsError
           else Inr (p\<lparr> DataPointer := DataPointer p - 1 \<rparr>)))"

section \<open>Input and output\<close>

text \<open>
  \<^verbatim>\<open>fmt.Printf("%c", r)\<close> writes the UTF-8 encoding of the rune \<open>r\<close>. This is the
  encoder of Go's standard library (\<^verbatim>\<open>utf8.AppendRune\<close>), on \<^verbatim>\<open>int32\<close> runes.
\<close>

definition RuneError :: "32 word" where "RuneError = 0xFFFD"

definition encode3 :: "32 word \<Rightarrow> byte list" where
  "encode3 r =
     [0xE0 OR ucast (drop_bit 12 r),
      0x80 OR (ucast (drop_bit 6 r) AND 0x3F),
      0x80 OR (ucast r AND 0x3F)]"

definition AppendRune :: "32 word \<Rightarrow> byte list" where
  "AppendRune r =
     (if r \<le> 0x7F then [ucast r]
      else if r \<le> 0x7FF then
        [0xC0 OR ucast (drop_bit 6 r), 0x80 OR (ucast r AND 0x3F)]
      else if r > 0x10FFFF \<or> (0xD800 \<le> r \<and> r \<le> 0xDFFF) then encode3 RuneError
      else if r \<le> 0xFFFF then encode3 r
      else
        [0xF0 OR ucast (drop_bit 18 r),
         0x80 OR (ucast (drop_bit 12 r) AND 0x3F),
         0x80 OR (ucast (drop_bit 6 r) AND 0x3F),
         0x80 OR (ucast r AND 0x3F)])"

definition Output :: "Processor \<Rightarrow> error + Processor" where
  "Output p =
     (case topSkip p of
        Inl e \<Rightarrow> Inl e
      | Inr True \<Rightarrow> Inr p
      | Inr False \<Rightarrow>
          (case Current p of
             Inl e \<Rightarrow> Inl e
           | Inr v \<Rightarrow> Inr (p\<lparr> stdout := stdout p @ AppendRune (ucast v) \<rparr>)))"

text \<open>
  \<^verbatim>\<open>Input\<close>: \<^verbatim>\<open>ReadByte\<close> fails at the end of the input, which is fatal. The byte is
  consumed before the store into the tape is attempted.
\<close>

definition Input :: "Processor \<Rightarrow> error + Processor" where
  "Input p =
     (case topSkip p of
        Inl e \<Rightarrow> Inl e
      | Inr True \<Rightarrow> Inr p
      | Inr False \<Rightarrow>
          (case stdin p of
             [] \<Rightarrow> Inl IOError
           | input # rest \<Rightarrow>
               (if inRange (DataPointer p) (Data p) then
                  Inr (p\<lparr> stdin := rest, Data := (Data p)[nat (DataPointer p) := input] \<rparr>)
                else Inl IndexPanic)))"

section \<open>Loop stack\<close>

definition StartLoop :: "Processor \<Rightarrow> error + Processor" where
  "StartLoop p =
     (case Current p of
        Inl e \<Rightarrow> Inl e
      | Inr v \<Rightarrow>
          Inr (p\<lparr> closures :=
                   \<lparr> Skip = (v = 0), Root = False, Start = instructionPointer p \<rparr> # closures p \<rparr>))"

definition EndLoop :: "Processor \<Rightarrow> error + Processor" where
  "EndLoop p =
     (if length (closures p) \<le> 1 then Inl UnbalancedLoopError
      else
        let currentClosure = hd (closures p) in
        if \<not> Skip currentClosure then
          (case Current p of
             Inl e \<Rightarrow> Inl e
           | Inr v \<Rightarrow>
               if v > 0 then Inr (p\<lparr> instructionPointer := Start currentClosure \<rparr>)
               else Inr (p\<lparr> closures := tl (closures p) \<rparr>))
        else Inr (p\<lparr> closures := tl (closures p) \<rparr>))"

definition ExpectEnd :: "Processor \<Rightarrow> error + Processor" where
  "ExpectEnd p =
     (if length (closures p) > 1 then Inl UnterminatedLoopError else Inr p)"

section \<open>Dispatcher\<close>

text \<open>The \<^verbatim>\<open>switch\<close> of \<^verbatim>\<open>Execute\<close>; any other byte is skipped.\<close>

definition dispatch :: "char \<Rightarrow> Processor \<Rightarrow> error + Processor" where
  "dispatch instruction p =
     (if instruction = InstMoveRight then MoveRight p
      else if instruction = InstMoveLeft then MoveLeft p
      else if instruction = InstDecrement then Decrement p
      else if instruction = InstIncrement then Increment p
      else if instruction = InstInput then Input p
      else if instruction = InstOutput then Output p
      else if instruction = InstLoopStart then StartLoop p
      else if instruction = InstLoopEnd then EndLoop p
      else Inr p)"

text \<open>
  One pass through the body of the \<^verbatim>\<open>for\<close> loop of \<^verbatim>\<open>Execute\<close>, entered with
  \<open>instructionPointer < len(instructionBuffer)\<close>: fetch, the debug trace (which reads
  \<^verbatim>\<open>p.Data[p.DataPointer]\<close> for its message; the message itself goes to standard error
  and is not modelled), the switch, and \<^verbatim>\<open>p.instructionPointer++\<close>.
\<close>

definition loopBody :: "Processor \<Rightarrow> error + Processor" where
  "loopBody p =
     (if instructionPointer p < 0 then Inl IndexPanic
      else
        let instruction = instructionBuffer p ! nat (instructionPointer p) in
        if Debug p \<and> \<not> inRange (DataPointer p) (Data p) then Inl IndexPanic
        else
          (case dispatch instruction p of
             Inl e \<Rightarrow> Inl e
           | Inr p' \<Rightarrow> Inr (p'\<lparr> instructionPointer := instructionPointer p' + 1 \<rparr>)))"

text \<open>
  \<^verbatim>\<open>Execute\<close>. The loop need not end, so the result is an option: \<open>None\<close> is a run
  that goes on forever, \<open>Some (Inl e)\<close> a run aborted with \<open>e\<close>, \<open>Some (Inr p)\<close> a run
  that left the loop in state \<open>p\<close>.
\<close>

partial_function (option) Execute :: "Processor \<Rightarrow> (error + Processor) option" where
  "Execute p =
     (if instructionPointer p < int (length (instructionBuffer p)) then
        (case loopBody p of
           Inl e \<Rightarrow> Some (Inl e)
         | Inr p' \<Rightarrow> Execute p')
      else Some (Inr p))"

text \<open>
  The first \<open>n\<close> passes of the loop of \<^verbatim>\<open>Execute\<close>, for statements about the states
  a run goes through: the result is the state after \<open>n\<close> passes, or the state in which
  the loop was left if that took fewer passes, or the error that aborted the run.
\<close>

fun passes :: "nat \<Rightarrow> Processor \<Rightarrow> error + Processor" where
  "passes 0 p = Inr p"
| "passes (Suc n) p =
     (if instructionPointer p < int (length (instructionBuffer p)) then
        (case loopBody p of
           Inl e \<Rightarrow> Inl e
         | Inr p' \<Rightarrow> passes n p')
      else Inr p)"

text \<open>
  The two \<^verbatim>\<open>main\<close> functions. Reading the file named on the command line is left
  out: \<open>input\<close> is the content of that file and \<open>console\<close> what standard input holds.
  The first \<^verbatim>\<open>main\<close> ends after \<^verbatim>\<open>Execute\<close>; the second, of the variant with the
  command line flags, sets \<open>Debug\<close> from the flag and calls \<^verbatim>\<open>ExpectEnd\<close> after
  \<^verbatim>\<open>Execute\<close>.
\<close>

definition main :: "string \<Rightarrow> byte list \<Rightarrow> (error + Processor) option" where
  "main input console = Execute (Load input (NewProcessor console))"

definition main_flags :: "bool \<Rightarrow> string \<Rightarrow> byte list \<Rightarrow> (error + Processor) option" where
  "main_flags flagDebug input console =
     (case Execute (Load input ((NewProcessor console)\<lparr> Debug := flagDebug \<rparr>)) of
        None \<Rightarrow> None
      | Some (Inl e) \<Rightarrow> Some (Inl e)
      | Some (Inr p) \<Rightarrow> Some (ExpectEnd p))"

section \<open>Notions used to state the properties\<close>

text \<open>The dispatch loop is about to decode the instruction \<open>c\<close>.\<close>

definition atInstruction :: "Processor \<Rightarrow> char \<Rightarrow> bool" where
  "atInstruction p c =
     (inRange (instructionPointer p) (instructionBuffer p) \<and>
      instructionBuffer p ! nat (instructionPointer p) = c)"

text \<open>
  Bracket matching on the program text. \<open>scan cs d\<close> reads \<open>cs\<close> with \<open>d\<close> loops open
  and returns the number of loops open at its end, or \<open>None\<close> if a \<^verbatim>\<open>]\<close> closes a
  loop that \<open>cs\<close> did not open. \<open>between buf i j\<close> is the text strictly between the
  positions \<open>i\<close> and \<open>j\<close>, and the \<^verbatim>\<open>]\<close> at \<open>j\<close> matches the \<^verbatim>\<open>[\<close> at \<open>i\<close> when
  the text between them is balanced.
\<close>

fun scan :: "string \<Rightarrow> nat \<Rightarrow> nat option" where
  "scan [] d = Some d"
| "scan (c # cs) d =
     (if c = InstLoopStart then scan cs (Suc d)
      else if c = InstLoopEnd then (case d of 0 \<Rightarrow> None | Suc d' \<Rightarrow> scan cs d')
      else scan cs d)"

definition between :: "string \<Rightarrow> nat \<Rightarrow> nat \<Rightarrow> string" where
  "between buf i j = take (j - i - 1) (drop (i + 1) buf)"

definition matching :: "string \<Rightarrow> nat \<Rightarrow> nat \<Rightarrow> bool" where
  "matching buf i j =
     (i < j \<and> j < length buf \<and> buf ! i = InstLoopStart \<and> buf ! j = InstLoopEnd \<and>
      scan (between buf i j) 0 = Some 0)"

text \<open>The number of \<^verbatim>\<open>+\<close> of a program text minus the number of its \<^verbatim>\<open>-\<close>.\<close>

definition netCount :: "string \<Rightarrow> int" where
  "netCount prog = int (count_list prog InstIncrement) - int (count_list prog InstDecrement)"

text \<open>
  The states the interpreter can be in: the cursor is on the tape, the loop stack is not
  empty, and neither the instruction pointer nor the start of a closure is negative.
\<close>

definition wellFormed :: "Processor \<Rightarrow> bool" where
  "wellFormed p =
     (inRange (DataPointer p) (Data p) \<and> closures p \<noteq> [] \<and> 0 \<le> instructionPointer p \<and>
      list_all (\<lambda>c. 0 \<le> Start c) (closures p))"

text \<open>Small machine states for the examples.\<close>

definition rootClosure :: Closure where
  "rootClosure = \<lparr> Skip = False, Root = True, Start = 0 \<rparr>"

definition testProcessor :: "string \<Rightarrow> int \<Rightarrow> byte list \<Rightarrow> int \<Rightarrow> Closure list \<Rightarrow> Processor" where
  "testProcessor prog ip tape cursor stack =
     \<lparr> Data = tape, DataPointer = cursor, Debug = False, stdin = [], stdout = [],
       instructionPointer = ip, instructionBuffer = prog, closures = stack \<rparr>"





section \<open>Basic facts about the dispatch loop\<close>

lemmas inst_defs = InstMoveRight_def InstMoveLeft_def InstIncrement_def InstDecrement_def
  InstOutput_def InstInput_def InstLoopStart_def InstLoopEnd_def

lemma Execute_halt:
  "\<not> instructionPointer p < int (length (instructionBuffer p)) \<Longrightarrow> Execute p = Some (Inr p)"
  by (subst Execute.simps) simp

lemma Execute_pass:
  "instructionPointer p < int (length (instructionBuffer p)) \<Longrightarrow> loopBody p = Inr p' \<Longrightarrow>
   Execute p = Execute p'"
  by (subst Execute.simps) simp

lemma Execute_abort:
  "instructionPointer p < int (length (instructionBuffer p)) \<Longrightarrow> loopBody p = Inl e \<Longrightarrow>
   Execute p = Some (Inl e)"
  by (subst Execute.simps) simp

text \<open>\<open>passes\<close> follows \<open>Execute\<close>: what \<open>n\<close> passes reach, \<open>Execute\<close> continues from.\<close>

lemma Execute_passes: "passes n p = Inr p' \<Longrightarrow> Execute p = Execute p'"
proof (induction n arbitrary: p)
  case 0
  then show ?case by simp
next
  case (Suc n)
  show ?case
  proof (cases "instructionPointer p < int (length (instructionBuffer p))")
    case False
    with Suc.prems show ?thesis by simp
  next
    case True
    with Suc.prems obtain q where q: "loopBody p = Inr q" "passes n q = Inr p'"
      by (auto split: sum.splits)
    from True q(1) have "Execute p = Execute q" by (rule Execute_pass)
    with Suc.IH [OF q(2)] show ?thesis by simp
  qed
qed

lemma Execute_passes_abort: "passes n p = Inl e \<Longrightarrow> Execute p = Some (Inl e)"
proof (induction n arbitrary: p)
  case 0
  then show ?case by simp
next
  case (Suc n)
  from Suc.prems have live: "instructionPointer p < int (length (instructionBuffer p))"
    by (auto split: if_splits)
  show ?case
  proof (cases "loopBody p")
    case (Inl e')
    with Suc.prems live have "e' = e" by simp
    with live Inl show ?thesis by (simp add: Execute_abort)
  next
    case (Inr q)
    with Suc.prems live have "passes n q = Inl e" by simp
    then have "Execute q = Some (Inl e)" by (rule Suc.IH)
    with Execute_pass [OF live Inr] show ?thesis by simp
  qed
qed

lemma passes_add:
  "passes (m + n) p = (case passes m p of Inl e \<Rightarrow> Inl e | Inr q \<Rightarrow> passes n q)"
proof (induction m arbitrary: p)
  case 0
  show ?case by simp
next
  case (Suc m)
  show ?case
  proof (cases "instructionPointer p < int (length (instructionBuffer p))")
    case True
    then show ?thesis by (simp add: Suc.IH split: sum.splits)
  next
    case False
    then show ?thesis by (cases n) simp_all
  qed
qed

lemma replicate_update_same: "(replicate n x)[i := x] = replicate n x"
  by (induction n arbitrary: i) (auto split: nat.splits)

lemma atInstruction_live:
  "atInstruction p c \<Longrightarrow> instructionPointer p < int (length (instructionBuffer p))"
  by (simp add: atInstruction_def inRange_def)

lemma loopBody_dispatch:
  "atInstruction p c \<Longrightarrow> inRange (DataPointer p) (Data p) \<Longrightarrow>
   loopBody p =
     (case dispatch c p of
        Inl e \<Rightarrow> Inl e
      | Inr p' \<Rightarrow> Inr (p'\<lparr> instructionPointer := instructionPointer p' + 1 \<rparr>))"
  by (simp add: loopBody_def atInstruction_def inRange_def)

lemma dispatch_simps:
  "dispatch InstMoveRight p = MoveRight p"
  "dispatch InstMoveLeft p = MoveLeft p"
  "dispatch InstDecrement p = Decrement p"
  "dispatch InstIncrement p = Increment p"
  "dispatch InstInput p = Input p"
  "dispatch InstOutput p = Output p"
  "dispatch InstLoopStart p = StartLoop p"
  "dispatch InstLoopEnd p = EndLoop p"
  by (simp_all add: dispatch_def inst_defs)

section \<open>The end of a loop\<close>

text \<open>
  Claim C1. When the dispatch loop decodes a \<^verbatim>\<open>]\<close> (with the cursor on the tape):
  \<^item> if the top closure skips, it is popped and the instruction pointer moves past the
    \<^verbatim>\<open>]\<close>;
  \<^item> if the top closure does not skip and the current cell is not zero, the stack is left
    as it is and the next instruction decoded is the one after the matching \<^verbatim>\<open>[\<close>
    (the pointer is \<open>Start + 1\<close>);
  \<^item> if the top closure does not skip and the current cell is zero, the closure is popped
    and the instruction pointer moves past the \<^verbatim>\<open>]\<close>;
  \<^item> if the stack holds the root closure only, the run aborts with
    \<open>UnbalancedLoopError\<close>.
\<close>

theorem EndLoop_cases:
  assumes "atInstruction p InstLoopEnd" and "inRange (DataPointer p) (Data p)"
  shows "(1 < length (closures p) \<and> Skip (hd (closures p)) \<longrightarrow>
       loopBody p = Inr (p\<lparr> closures := tl (closures p),
                             instructionPointer := instructionPointer p + 1 \<rparr>)) \<and>
    (1 < length (closures p) \<and> \<not> Skip (hd (closures p)) \<and> Data p ! nat (DataPointer p) \<noteq> 0 \<longrightarrow>
       loopBody p = Inr (p\<lparr> instructionPointer := Start (hd (closures p)) + 1 \<rparr>)) \<and>
    (1 < length (closures p) \<and> \<not> Skip (hd (closures p)) \<and> Data p ! nat (DataPointer p) = 0 \<longrightarrow>
       loopBody p = Inr (p\<lparr> closures := tl (closures p),
                             instructionPointer := instructionPointer p + 1 \<rparr>)) \<and>
    (length (closures p) \<le> 1 \<longrightarrow>
       loopBody p = Inl UnbalancedLoopError \<and> Execute p = Some (Inl UnbalancedLoopError))"
proof -
  note body = loopBody_dispatch [OF assms] dispatch_simps
  have cur: "Current p = Inr (Data p ! nat (DataPointer p))"
    using assms(2) by (simp add: Current_def)
  have skip: "loopBody p = Inr (p\<lparr> closures := tl (closures p),
                             instructionPointer := instructionPointer p + 1 \<rparr>)"
    if "1 < length (closures p)" "Skip (hd (closures p))"
    using that by (simp add: body EndLoop_def)
  have again: "loopBody p = Inr (p\<lparr> instructionPointer := Start (hd (closures p)) + 1 \<rparr>)"
    if "1 < length (closures p)" "\<not> Skip (hd (closures p))" "Data p ! nat (DataPointer p) \<noteq> 0"
    using that by (simp add: body EndLoop_def cur word_greater_zero_iff)
  have leave: "loopBody p = Inr (p\<lparr> closures := tl (closures p),
                             instructionPointer := instructionPointer p + 1 \<rparr>)"
    if "1 < length (closures p)" "\<not> Skip (hd (closures p))" "Data p ! nat (DataPointer p) = 0"
    using that by (simp add: body EndLoop_def cur)
  have stray: "loopBody p = Inl UnbalancedLoopError" if "length (closures p) \<le> 1"
    using that by (simp add: body EndLoop_def)
  have "Execute p = Some (Inl UnbalancedLoopError)" if "length (closures p) \<le> 1"
    using atInstruction_live [OF assms(1)] stray [OF that] by (rule Execute_abort)
  with skip again leave stray show ?thesis by blast
qed

theorem EndLoop_cases_witness:
  "loopBody (testProcessor ''[-]'' 2 [0] 0 [\<lparr> Skip = True, Root = False, Start = 0 \<rparr>, rootClosure]) =
     Inr (testProcessor ''[-]'' 3 [0] 0 [rootClosure]) \<and>
   loopBody (testProcessor ''[-]'' 2 [4] 0 [\<lparr> Skip = False, Root = False, Start = 0 \<rparr>, rootClosure]) =
     Inr (testProcessor ''[-]'' 1 [4] 0 [\<lparr> Skip = False, Root = False, Start = 0 \<rparr>, rootClosure]) \<and>
   loopBody (testProcessor ''[-]'' 2 [0] 0 [\<lparr> Skip = False, Root = False, Start = 0 \<rparr>, rootClosure]) =
     Inr (testProcessor ''[-]'' 3 [0] 0 [rootClosure]) \<and>
   Execute (testProcessor '']'' 0 [0] 0 [rootClosure]) = Some (Inl UnbalancedLoopError)"
  using
    EndLoop_cases [of "testProcessor ''[-]'' 2 [0] 0 [\<lparr> Skip = True, Root = False, Start = 0 \<rparr>, rootClosure]"]
    EndLoop_cases [of "testProcessor ''[-]'' 2 [4] 0 [\<lparr> Skip = False, Root = False, Start = 0 \<rparr>, rootClosure]"]
    EndLoop_cases [of "testProcessor ''[-]'' 2 [0] 0 [\<lparr> Skip = False, Root = False, Start = 0 \<rparr>, rootClosure]"]
    EndLoop_cases [of "testProcessor '']'' 0 [0] 0 [rootClosure]"]
  by (simp add: testProcessor_def rootClosure_def atInstruction_def inRange_def InstLoopEnd_def)

section \<open>Skipped loops\<close>

lemma scan_append:
  "scan (xs @ ys) d = (case scan xs d of None \<Rightarrow> None | Some m \<Rightarrow> scan ys m)"
  by (induction xs arbitrary: d) (auto split: nat.splits)

lemma scan_take: "scan xs d = Some m \<Longrightarrow> \<exists>m'. scan (take k xs) d = Some m'"
proof -
  assume "scan xs d = Some m"
  then have "scan (take k xs @ drop k xs) d = Some m" by simp
  then show ?thesis unfolding scan_append by (auto split: option.splits)
qed

lemma matching_split:
  assumes "matching buf i j"
  shows "buf = take i buf @ InstLoopStart # between buf i j @ InstLoopEnd # drop (Suc j) buf"
proof -
  from assms have ij: "i < j" "j < length buf" and bi: "buf ! i = InstLoopStart"
    and bj: "buf ! j = InstLoopEnd"
    by (simp_all add: matching_def)
  have "buf = take i buf @ buf ! i # drop (Suc i) buf"
    using ij by (simp add: id_take_nth_drop)
  moreover have "drop (Suc i) buf =
      take (j - i - 1) (drop (Suc i) buf) @ drop (Suc i) buf ! (j - i - 1) #
      drop (Suc (j - i - 1)) (drop (Suc i) buf)"
    using ij by (intro id_take_nth_drop) simp
  moreover have "drop (Suc i) buf ! (j - i - 1) = buf ! j"
    using ij by simp
  moreover have "drop (Suc (j - i - 1)) (drop (Suc i) buf) = drop (Suc j) buf"
    using ij by simp
  ultimately show ?thesis
    using bi bj by (simp add: between_def)
qed

text \<open>Under a skipping top closure only the two bracket instructions do anything.\<close>

lemma dispatch_skipped:
  assumes "closures q = f # fs" and "Skip f"
    and "c \<noteq> InstLoopStart" and "c \<noteq> InstLoopEnd"
  shows "dispatch c q = Inr q"
  using assms
  by (simp add: dispatch_def Increment_def Decrement_def MoveRight_def MoveLeft_def
      Output_def Input_def topSkip_def)

lemma loopBody_at:
  assumes "instructionBuffer q = pre @ c # post" and "instructionPointer q = int (length pre)"
    and "inRange (DataPointer q) (Data q)"
  shows "loopBody q =
     (case dispatch c q of
        Inl e \<Rightarrow> Inl e
      | Inr p' \<Rightarrow> Inr (p'\<lparr> instructionPointer := instructionPointer p' + 1 \<rparr>))"
  using assms by (intro loopBody_dispatch) (simp_all add: atInstruction_def inRange_def)

lemma skipped_region:
  assumes "instructionBuffer q = pre @ cs @ post"
    and "instructionPointer q = int (length pre)"
    and "closures q = fs @ rest" and "length fs = Suc d" and "list_all Skip fs"
    and "scan cs d = Some d'"
    and "inRange (DataPointer q) (Data q)" and "Data q ! nat (DataPointer q) = 0"
  shows "\<exists>fs'. length fs' = Suc d' \<and> list_all Skip fs' \<and>
     passes (length cs) q =
       Inr (q\<lparr> instructionPointer := int (length pre + length cs), closures := fs' @ rest \<rparr>)"
  using assms
proof (induction cs arbitrary: q pre fs d)
  case Nil
  then show ?case by (intro exI [of _ fs]) simp
next
  case (Cons c cs)
  from Cons.prems(4) obtain f fs0 where fs: "fs = f # fs0" by (cases fs) auto
  with Cons.prems(5) have skipf: "Skip f" by simp
  have live: "instructionPointer q < int (length (instructionBuffer q))"
    using Cons.prems(1,2) by simp
  have buf: "instructionBuffer q = pre @ c # (cs @ post)"
    using Cons.prems(1) by simp
  note body = loopBody_at [OF buf Cons.prems(2) Cons.prems(7)]
  have cur: "Current q = Inr 0"
    using Cons.prems(7,8) by (simp add: Current_def)
  have "\<exists>q' gs m. loopBody q = Inr q' \<and> q' = q\<lparr> instructionPointer := int (length (pre @ [c])),
        closures := gs @ rest \<rparr> \<and> length gs = Suc m \<and> list_all Skip gs \<and> scan cs m = Some d'"
  proof (cases "c = InstLoopStart")
    case True
    let ?g = "\<lparr> Skip = True, Root = False, Start = instructionPointer q \<rparr>"
    have "loopBody q = Inr (q\<lparr> instructionPointer := int (length (pre @ [c])),
        closures := (?g # fs) @ rest \<rparr>)"
      using True Cons.prems(2,3) by (simp add: body dispatch_simps StartLoop_def cur)
    moreover have "scan cs (Suc d) = Some d'"
      using True Cons.prems(6) by simp
    ultimately show ?thesis
      using Cons.prems(4,5) by (intro exI [of _ _] exI [of _ "?g # fs"] exI [of _ "Suc d"]) simp
  next
    case notStart: False
    show ?thesis
    proof (cases "c = InstLoopEnd")
      case True
      with notStart Cons.prems(6) obtain m where d: "d = Suc m" and sc: "scan cs m = Some d'"
        by (auto split: nat.splits)
      from d Cons.prems(4) fs have len0: "length fs0 = Suc m" by simp
      have "loopBody q = Inr (q\<lparr> instructionPointer := int (length (pre @ [c])),
          closures := fs0 @ rest \<rparr>)"
        using True Cons.prems(2,3) fs skipf len0
        by (simp add: body dispatch_simps EndLoop_def)
      with len0 sc Cons.prems(5) fs show ?thesis
        by (intro exI [of _ _] exI [of _ fs0] exI [of _ m]) simp
    next
      case False
      have "dispatch c q = Inr q"
        using Cons.prems(3) fs skipf notStart False
        by (intro dispatch_skipped [of q f "fs0 @ rest"]) simp_all
      then have "loopBody q = Inr (q\<lparr> instructionPointer := int (length (pre @ [c])),
          closures := fs @ rest \<rparr>)"
        using Cons.prems(2,3) by (simp add: body)
      moreover have "scan cs d = Some d'"
        using notStart False Cons.prems(6) by simp
      ultimately show ?thesis
        using Cons.prems(4,5) by (intro exI [of _ _] exI [of _ fs] exI [of _ d]) simp
    qed
  qed
  then obtain q' gs m where step: "loopBody q = Inr q'"
    and q': "q' = q\<lparr> instructionPointer := int (length (pre @ [c])), closures := gs @ rest \<rparr>"
    and gs: "length gs = Suc m" "list_all Skip gs" and sc: "scan cs m = Some d'"
    by blast
  have "\<exists>fs'. length fs' = Suc d' \<and> list_all Skip fs' \<and>
     passes (length cs) q' =
       Inr (q'\<lparr> instructionPointer := int (length (pre @ [c]) + length cs),
                closures := fs' @ rest \<rparr>)"
  proof (rule Cons.IH [OF _ _ _ gs sc])
    show "instructionBuffer q' = (pre @ [c]) @ cs @ post"
      using q' Cons.prems(1) by simp
    show "instructionPointer q' = int (length (pre @ [c]))"
      using q' by simp
    show "closures q' = gs @ rest"
      using q' by simp
    show "inRange (DataPointer q') (Data q')"
      using q' Cons.prems(7) by simp
    show "Data q' ! nat (DataPointer q') = 0"
      using q' Cons.prems(8) by simp
  qed
  then obtain fs' where fs': "length fs' = Suc d'" "list_all Skip fs'"
    and run: "passes (length cs) q' =
       Inr (q'\<lparr> instructionPointer := int (length (pre @ [c]) + length cs),
                closures := fs' @ rest \<rparr>)"
    by blast
  have "passes (length (c # cs)) q =
      Inr (q\<lparr> instructionPointer := int (length pre + length (c # cs)), closures := fs' @ rest \<rparr>)"
    using live step run q' by simp
  with fs' show ?case by blast
qed

lemma skipped_prefix:
  assumes m: "matching (instructionBuffer p) i j"
    and ip: "instructionPointer p = int i"
    and cursor: "inRange (DataPointer p) (Data p)"
    and zero: "Data p ! nat (DataPointer p) = 0"
    and n: "n \<le> j - i - 1"
    and sc: "scan (take n (between (instructionBuffer p) i j)) 0 = Some d"
  shows "\<exists>fs. length fs = Suc d \<and> list_all Skip fs \<and>
     passes (Suc n) p =
       Inr (p\<lparr> instructionPointer := int (i + Suc n), closures := fs @ closures p \<rparr>)"
proof -
  let ?buf = "instructionBuffer p"
  let ?body = "between ?buf i j"
  let ?g = "\<lparr> Skip = True, Root = False, Start = instructionPointer p \<rparr>"
  let ?p1 = "p\<lparr> instructionPointer := int (Suc i), closures := ?g # closures p \<rparr>"
  from m have ij: "i < j" "j < length ?buf" by (simp_all add: matching_def)
  have lenbody: "length ?body = j - i - 1"
    using ij by (simp add: between_def)
  have lenpre: "length (take i ?buf) = i"
    using ij by simp
  have buf: "?buf = take i ?buf @ InstLoopStart # (?body @ InstLoopEnd # drop (Suc j) ?buf)"
    using matching_split [OF m] by simp
  have live: "instructionPointer p < int (length ?buf)"
    using ip ij by simp
  have cur: "Current p = Inr 0"
    using cursor zero by (simp add: Current_def)
  have first: "loopBody p = Inr ?p1"
    using loopBody_at [OF buf _ cursor] ip lenpre
    by (simp add: dispatch_simps StartLoop_def cur)
  have "\<exists>fs'. length fs' = Suc d \<and> list_all Skip fs' \<and>
     passes (length (take n ?body)) ?p1 =
       Inr (?p1\<lparr> instructionPointer :=
                   int (length (take i ?buf @ [InstLoopStart]) + length (take n ?body)),
                 closures := fs' @ closures p \<rparr>)"
  proof (rule skipped_region [where fs = "[?g]" and d = 0, OF _ _ _ _ _ sc])
    have "take n ?body @ drop n ?body @ InstLoopEnd # drop (Suc j) ?buf =
        ?body @ InstLoopEnd # drop (Suc j) ?buf"
      by (simp only: append_assoc [symmetric] append_take_drop_id)
    with buf have "?buf = (take i ?buf @ [InstLoopStart]) @ take n ?body @
        (drop n ?body @ InstLoopEnd # drop (Suc j) ?buf)"
      by (simp only: append_assoc append_Cons append_Nil)
    then show "instructionBuffer ?p1 = (take i ?buf @ [InstLoopStart]) @ take n ?body @
        (drop n ?body @ InstLoopEnd # drop (Suc j) ?buf)"
      by simp
    show "instructionPointer ?p1 = int (length (take i ?buf @ [InstLoopStart]))"
      using lenpre by simp
    show "closures ?p1 = [?g] @ closures p" by simp
    show "length [?g] = Suc 0" by simp
    show "list_all Skip [?g]" by simp
    show "inRange (DataPointer ?p1) (Data ?p1)" using cursor by simp
    show "Data ?p1 ! nat (DataPointer ?p1) = 0" using zero by simp
  qed
  then obtain fs where fs: "length fs = Suc d" "list_all Skip fs"
    and run: "passes (length (take n ?body)) ?p1 =
       Inr (?p1\<lparr> instructionPointer :=
                   int (length (take i ?buf @ [InstLoopStart]) + length (take n ?body)),
                 closures := fs @ closures p \<rparr>)"
    by blast
  have "length (take n ?body) = n"
    using n lenbody by simp
  with run lenpre have "passes n ?p1 =
      Inr (p\<lparr> instructionPointer := int (i + Suc n), closures := fs @ closures p \<rparr>)"
    by simp
  with live first have "passes (Suc n) p =
      Inr (p\<lparr> instructionPointer := int (i + Suc n), closures := fs @ closures p \<rparr>)"
    by simp
  with fs show ?thesis by blast
qed

text \<open>
  Claim C2. Let a \<^verbatim>\<open>[\<close> at position \<open>i\<close> be decoded while the current cell is zero,
  and let \<open>j\<close> be the position of its matching \<^verbatim>\<open>]\<close>. Then each of the next \<open>j - i\<close>
  passes of the dispatch loop moves the instruction pointer forward by one, so that every
  instruction of the body, nested loops included, is passed once, and after each of them the
  tape, the cursor, the input and the output are what they were at the \<^verbatim>\<open>[\<close>: only
  skipping closures have been pushed on the stack. The pass after them, at the matching
  \<^verbatim>\<open>]\<close>, restores the stack, and execution continues at \<open>j + 1\<close> in the state the
  \<^verbatim>\<open>[\<close> was decoded in.
\<close>

theorem skipped_loop_no_effect:
  assumes m: "matching (instructionBuffer p) i j"
    and ip: "instructionPointer p = int i"
    and cursor: "inRange (DataPointer p) (Data p)"
    and zero: "Data p ! nat (DataPointer p) = 0"
    and stack: "closures p \<noteq> []"
  shows "(\<forall>k. 1 \<le> k \<and> k \<le> j - i \<longrightarrow>
       (\<exists>fs. fs \<noteq> [] \<and> list_all Skip fs \<and>
          passes k p =
            Inr (p\<lparr> instructionPointer := int (i + k), closures := fs @ closures p \<rparr>))) \<and>
    passes (j - i + 1) p = Inr (p\<lparr> instructionPointer := int j + 1 \<rparr>)"
proof (intro conjI allI impI)
  let ?buf = "instructionBuffer p"
  let ?body = "between ?buf i j"
  from m have ij: "i < j" "j < length ?buf" and full: "scan ?body 0 = Some 0"
    and bj: "?buf ! j = InstLoopEnd"
    by (simp_all add: matching_def)
  have lenbody: "length ?body = j - i - 1"
    using ij by (simp add: between_def)
  {
    fix k
    assume k: "1 \<le> k \<and> k \<le> j - i"
    then obtain n where n: "k = Suc n" "n \<le> j - i - 1"
      by (cases k) auto
    from scan_take [OF full] obtain d where "scan (take n ?body) 0 = Some d"
      by blast
    from skipped_prefix [OF m ip cursor zero n(2) this]
    obtain fs where fs: "length fs = Suc d" "list_all Skip fs"
      and run: "passes (Suc n) p =
        Inr (p\<lparr> instructionPointer := int (i + Suc n), closures := fs @ closures p \<rparr>)"
      by blast
    from fs(1) have "fs \<noteq> []" by auto
    with fs(2) run n(1)
    show "\<exists>fs. fs \<noteq> [] \<and> list_all Skip fs \<and>
          passes k p =
            Inr (p\<lparr> instructionPointer := int (i + k), closures := fs @ closures p \<rparr>)"
      by blast
  }
  have "scan (take (j - i - 1) ?body) 0 = Some 0"
    using full lenbody by simp
  from skipped_prefix [OF m ip cursor zero order_refl this]
  obtain fs where fs: "length fs = Suc 0" "list_all Skip fs"
    and run: "passes (Suc (j - i - 1)) p =
       Inr (p\<lparr> instructionPointer := int (i + Suc (j - i - 1)), closures := fs @ closures p \<rparr>)"
    by blast
  from fs obtain f where f: "fs = [f]" "Skip f"
    by (cases fs) auto
  let ?q = "p\<lparr> instructionPointer := int j, closures := f # closures p \<rparr>"
  have "Suc (j - i - 1) = j - i" and "i + (j - i) = j"
    using ij by simp_all
  with run f have atj: "passes (j - i) p = Inr ?q"
    by (simp del: passes.simps)
  have "atInstruction ?q InstLoopEnd"
    using ij bj by (simp add: atInstruction_def inRange_def)
  moreover have "inRange (DataPointer ?q) (Data ?q)"
    using cursor by simp
  ultimately have "loopBody ?q =
      (case EndLoop ?q of Inl e \<Rightarrow> Inl e
       | Inr p' \<Rightarrow> Inr (p'\<lparr> instructionPointer := instructionPointer p' + 1 \<rparr>))"
    by (simp add: loopBody_dispatch dispatch_simps)
  moreover have "EndLoop ?q = Inr (?q\<lparr> closures := closures p \<rparr>)"
    using stack f by (cases "closures p") (simp_all add: EndLoop_def)
  ultimately have last: "loopBody ?q = Inr (p\<lparr> instructionPointer := int j + 1 \<rparr>)"
    by simp
  have "passes 1 ?q = Inr (p\<lparr> instructionPointer := int j + 1 \<rparr>)"
    using ij last by simp
  with atj show "passes (j - i + 1) p = Inr (p\<lparr> instructionPointer := int j + 1 \<rparr>)"
    by (simp only: passes_add [of "j - i" 1 p] sum.case)
qed

theorem skipped_loop_no_effect_witness:
  "matching ''+[-[>].]<'' 1 7 \<and>
   passes 7 (testProcessor ''+[-[>].]<'' 1 [0, 5] 0 [rootClosure]) =
     Inr (testProcessor ''+[-[>].]<'' 8 [0, 5] 0 [rootClosure])"
  using skipped_loop_no_effect [of "testProcessor ''+[-[>].]<'' 1 [0, 5] 0 [rootClosure]" 1 7]
  by (simp add: testProcessor_def rootClosure_def matching_def between_def inRange_def inst_defs)

section \<open>Moving left\<close>

text \<open>
  Claim C8. A \<^verbatim>\<open><\<close> that is not skipped aborts the run with \<open>OutOfBoundsError\<close> when
  the cursor is 0 (the cursor does not wrap), and moves the cursor down by exactly one
  when it is greater than 0.
\<close>

theorem MoveLeft_boundary:
  assumes "topSkip p = Inr False"
  shows "(DataPointer p = 0 \<longrightarrow> MoveLeft p = Inl OutOfBoundsError) \<and>
    (0 < DataPointer p \<longrightarrow> MoveLeft p = Inr (p\<lparr> DataPointer := DataPointer p - 1 \<rparr>)) \<and>
    (atInstruction p InstMoveLeft \<and> inRange (DataPointer p) (Data p) \<longrightarrow>
       (DataPointer p = 0 \<longrightarrow> Execute p = Some (Inl OutOfBoundsError)) \<and>
       (0 < DataPointer p \<longrightarrow>
          loopBody p = Inr (p\<lparr> DataPointer := DataPointer p - 1,
                                instructionPointer := instructionPointer p + 1 \<rparr>)))"
proof -
  have zero: "MoveLeft p = Inl OutOfBoundsError" if "DataPointer p = 0"
    using assms that by (simp add: MoveLeft_def)
  have pos: "MoveLeft p = Inr (p\<lparr> DataPointer := DataPointer p - 1 \<rparr>)" if "0 < DataPointer p"
    using assms that by (simp add: MoveLeft_def)
  have run0: "Execute p = Some (Inl OutOfBoundsError)"
    if "atInstruction p InstMoveLeft" "inRange (DataPointer p) (Data p)" "DataPointer p = 0"
  proof -
    from that zero have "loopBody p = Inl OutOfBoundsError"
      by (simp add: loopBody_dispatch dispatch_simps)
    with atInstruction_live [OF that(1)] show ?thesis by (rule Execute_abort)
  qed
  have run1: "loopBody p = Inr (p\<lparr> DataPointer := DataPointer p - 1,
                                instructionPointer := instructionPointer p + 1 \<rparr>)"
    if "atInstruction p InstMoveLeft" "inRange (DataPointer p) (Data p)" "0 < DataPointer p"
    using that pos by (simp add: loopBody_dispatch dispatch_simps)
  from zero pos run0 run1 show ?thesis by blast
qed

theorem MoveLeft_boundary_witness:
  "MoveLeft (testProcessor ''<'' 0 [7, 9] 0 [rootClosure]) = Inl OutOfBoundsError \<and>
   Execute (testProcessor ''<'' 0 [7, 9] 0 [rootClosure]) = Some (Inl OutOfBoundsError) \<and>
   MoveLeft (testProcessor ''<'' 0 [7, 9] 1 [rootClosure]) =
     Inr (testProcessor ''<'' 0 [7, 9] 0 [rootClosure]) \<and>
   loopBody (testProcessor ''<'' 0 [7, 9] 1 [rootClosure]) =
     Inr (testProcessor ''<'' 1 [7, 9] 0 [rootClosure])"
  using MoveLeft_boundary [of "testProcessor ''<'' 0 [7, 9] 0 [rootClosure]"]
    MoveLeft_boundary [of "testProcessor ''<'' 0 [7, 9] 1 [rootClosure]"]
  by (simp add: testProcessor_def rootClosure_def topSkip_def atInstruction_def inRange_def
      InstMoveLeft_def)

section \<open>Output\<close>

lemma unat_rune_of_byte: "unat (ucast (v :: byte) :: 32 word) = unat v"
proof -
  have "unat v < 2 ^ 8" using unsigned_less [of v] by simp
  then have "unat v < 2 ^ 32" by simp
  then show ?thesis by (simp add: unsigned_ucast_eq take_bit_nat_eq_self)
qed

lemma rune_of_byte_ascii: "(ucast (v :: byte) :: 32 word) \<le> 0x7F \<longleftrightarrow> v \<le> 0x7F"
  by (simp add: word_le_nat_alt unat_rune_of_byte)

lemma rune_of_byte_two: "(ucast (v :: byte) :: 32 word) \<le> 0x7FF"
proof -
  have "unat v < 256" using unsigned_less [of v] by simp
  then show ?thesis by (simp add: word_le_nat_alt unat_rune_of_byte)
qed

lemma byte_of_rune_of_byte: "(ucast (ucast (v :: byte) :: 32 word) :: byte) = v"
  by (simp add: ucast_up_ucast_id is_up)

lemma byte_of_rune_shift: "(ucast (drop_bit 6 (ucast (v :: byte) :: 32 word)) :: byte) = drop_bit 6 v"
  by (rule bit_word_eqI) (auto simp add: bit_simps)

lemma AppendRune_byte:
  "AppendRune (ucast (v :: byte)) =
     (if v \<le> 0x7F then [v] else [0xC0 OR drop_bit 6 v, 0x80 OR (v AND 0x3F)])"
  by (simp add: AppendRune_def rune_of_byte_ascii rune_of_byte_two byte_of_rune_of_byte byte_of_rune_shift)

text \<open>
  Claim C9. A \<^verbatim>\<open>.\<close> that is not skipped writes the current cell as the UTF-8 encoding
  of the code point of that value: the byte itself for the values 0 to 127, and the two
  bytes \<open>110000xx 10xxxxxx\<close> of the code point for the values 128 to 255.
\<close>

theorem Output_code_point:
  assumes "topSkip p = Inr False" and "inRange (DataPointer p) (Data p)"
  shows "Output p =
      Inr (p\<lparr> stdout := stdout p @ AppendRune (ucast (Data p ! nat (DataPointer p))) \<rparr>) \<and>
    (Data p ! nat (DataPointer p) \<le> 127 \<longrightarrow>
       AppendRune (ucast (Data p ! nat (DataPointer p))) = [Data p ! nat (DataPointer p)]) \<and>
    (128 \<le> Data p ! nat (DataPointer p) \<longrightarrow>
       AppendRune (ucast (Data p ! nat (DataPointer p))) =
         [0xC0 OR drop_bit 6 (Data p ! nat (DataPointer p)),
          0x80 OR (Data p ! nat (DataPointer p) AND 0x3F)])"
proof -
  let ?v = "Data p ! nat (DataPointer p)"
  have "Current p = Inr ?v"
    using assms(2) by (simp add: Current_def)
  with assms(1) have "Output p = Inr (p\<lparr> stdout := stdout p @ AppendRune (ucast ?v) \<rparr>)"
    by (simp add: Output_def)
  moreover have "AppendRune (ucast ?v) = [?v]" if "?v \<le> 127"
    using that by (simp add: AppendRune_byte)
  moreover have "AppendRune (ucast ?v) = [0xC0 OR drop_bit 6 ?v, 0x80 OR (?v AND 0x3F)]"
    if "128 \<le> ?v"
  proof -
    from that have "\<not> ?v \<le> 0x7F"
      by (simp add: word_le_nat_alt)
    then show ?thesis by (simp add: AppendRune_byte)
  qed
  ultimately show ?thesis by blast
qed

theorem Output_code_point_witness:
  "Output (testProcessor ''.'' 0 [65, 233] 0 [rootClosure]) =
     Inr ((testProcessor ''.'' 0 [65, 233] 0 [rootClosure])\<lparr> stdout := [65] \<rparr>) \<and>
   Output (testProcessor ''.'' 0 [65, 233] 1 [rootClosure]) =
     Inr ((testProcessor ''.'' 0 [65, 233] 1 [rootClosure])\<lparr> stdout := [0xC3, 0xA9] \<rparr>)"
  using Output_code_point [of "testProcessor ''.'' 0 [65, 233] 0 [rootClosure]"]
    Output_code_point [of "testProcessor ''.'' 0 [65, 233] 1 [rootClosure]"]
  by (simp add: testProcessor_def rootClosure_def topSkip_def inRange_def)

section \<open>Incrementing and decrementing\<close>

lemma netCount_snoc:
  "netCount (cs @ [c]) =
     netCount cs + (if c = InstIncrement then 1 else if c = InstDecrement then -1 else 0)"
  by (simp add: netCount_def inst_defs)

lemma plus_minus_passes:
  assumes prog: "set (instructionBuffer p) \<subseteq> {InstIncrement, InstDecrement}"
    and ip: "instructionPointer p = 0"
    and top: "topSkip p = Inr False"
    and cursor: "inRange (DataPointer p) (Data p)"
  shows "n \<le> length (instructionBuffer p) \<Longrightarrow>
    passes n p =
      Inr (p\<lparr> instructionPointer := int n,
              Data := (Data p)[nat (DataPointer p) :=
                Data p ! nat (DataPointer p) + of_int (netCount (take n (instructionBuffer p)))] \<rparr>)"
proof (induction n)
  case 0
  then show ?case using ip by (simp add: netCount_def)
next
  case (Suc n)
  let ?buf = "instructionBuffer p"
  let ?k = "nat (DataPointer p)"
  let ?w = "Data p ! ?k + of_int (netCount (take n ?buf))"
  let ?q = "p\<lparr> instructionPointer := int n, Data := (Data p)[?k := ?w] \<rparr>"
  from Suc.prems have n: "n < length ?buf" by simp
  with Suc.IH have before: "passes n p = Inr ?q" by simp
  from cursor have k: "?k < length (Data p)"
    by (simp add: inRange_def nat_less_iff)
  have at: "atInstruction ?q (?buf ! n)"
    using n by (simp add: atInstruction_def inRange_def)
  have cursor': "inRange (DataPointer ?q) (Data ?q)"
    using cursor by (simp add: inRange_def)
  have top': "topSkip ?q = Inr False"
    using top by (simp add: topSkip_def)
  have cur: "Current ?q = Inr ?w"
    using cursor' k by (simp add: Current_def)
  have take: "take (Suc n) ?buf = take n ?buf @ [?buf ! n]"
    using n by (simp add: take_Suc_conv_app_nth)
  have up: "?w + 1 = Data p ! ?k + of_int (netCount (take (Suc n) ?buf))"
    if "?buf ! n = InstIncrement"
    using that by (simp add: take netCount_snoc)
  have down: "?w - 1 = Data p ! ?k + of_int (netCount (take (Suc n) ?buf))"
    if "?buf ! n = InstDecrement"
    using that by (simp add: take netCount_snoc inst_defs)
  from n prog have "?buf ! n = InstIncrement \<or> ?buf ! n = InstDecrement"
    by (metis insertE nth_mem singletonD subsetD)
  then have "loopBody ?q =
      Inr (p\<lparr> instructionPointer := int (Suc n),
              Data := (Data p)[?k := Data p ! ?k + of_int (netCount (take (Suc n) ?buf))] \<rparr>)"
  proof
    assume c: "?buf ! n = InstIncrement"
    with at have "atInstruction ?q InstIncrement" by simp
    from loopBody_dispatch [OF this cursor'] show ?thesis
      using up [OF c] by (simp add: dispatch_simps Increment_def top' cur)
  next
    assume c: "?buf ! n = InstDecrement"
    with at have "atInstruction ?q InstDecrement" by simp
    from loopBody_dispatch [OF this cursor'] show ?thesis
      using down [OF c] by (simp add: dispatch_simps Decrement_def top' cur)
  qed
  moreover have "instructionPointer ?q < int (length (instructionBuffer ?q))"
    using n by simp
  ultimately have "passes 1 ?q =
      Inr (p\<lparr> instructionPointer := int (Suc n),
              Data := (Data p)[?k := Data p ! ?k + of_int (netCount (take (Suc n) ?buf))] \<rparr>)"
    by simp
  with before show ?case
    using passes_add [of n 1 p] by (simp del: passes.simps)
qed

text \<open>
  Claim C7. Let the cell under the cursor hold \<open>v\<close>, and let a program made of \<^verbatim>\<open>+\<close>
  and \<^verbatim>\<open>-\<close> only run without being skipped. The run ends normally with the cursor
  where it was, every other cell as it was, and the cell under the cursor holding
  \<open>(v + count(+) - count(-)) mod 256\<close>. Incrementing 255 gives 0 and decrementing 0
  gives 255, and neither is an error.
\<close>

theorem plus_minus_wrap:
  assumes prog: "set (instructionBuffer p) \<subseteq> {InstIncrement, InstDecrement}"
    and ip: "instructionPointer p = 0"
    and top: "topSkip p = Inr False"
    and cursor: "inRange (DataPointer p) (Data p)"
  shows "(\<exists>w. Execute p =
        Some (Inr (p\<lparr> instructionPointer := int (length (instructionBuffer p)),
                       Data := (Data p)[nat (DataPointer p) := w] \<rparr>)) \<and>
      uint w =
        (uint (Data p ! nat (DataPointer p)) + int (count_list (instructionBuffer p) InstIncrement)
           - int (count_list (instructionBuffer p) InstDecrement)) mod 256) \<and>
    (Data p ! nat (DataPointer p) = 255 \<longrightarrow>
      Increment p = Inr (p\<lparr> Data := (Data p)[nat (DataPointer p) := 0] \<rparr>)) \<and>
    (Data p ! nat (DataPointer p) = 0 \<longrightarrow>
      Decrement p = Inr (p\<lparr> Data := (Data p)[nat (DataPointer p) := 255] \<rparr>))"
proof (intro conjI)
  let ?buf = "instructionBuffer p"
  let ?v = "Data p ! nat (DataPointer p)"
  let ?w = "?v + of_int (netCount ?buf)"
  let ?p' = "p\<lparr> instructionPointer := int (length ?buf),
                 Data := (Data p)[nat (DataPointer p) := ?w] \<rparr>"
  from plus_minus_passes [OF prog ip top cursor order_refl]
  have "passes (length ?buf) p = Inr ?p'" by simp
  then have "Execute p = Execute ?p'" by (rule Execute_passes)
  also have "\<dots> = Some (Inr ?p')" by (rule Execute_halt) simp
  finally have run: "Execute p = Some (Inr ?p')" .
  have "?w = word_of_int (uint ?v + netCount ?buf)" by simp
  then have "uint ?w = (uint ?v + netCount ?buf) mod 256"
    by (simp only: uint_word_of_int) simp
  then have "uint ?w = (uint ?v + int (count_list ?buf InstIncrement)
      - int (count_list ?buf InstDecrement)) mod 256"
    by (simp add: netCount_def algebra_simps)
  with run show "\<exists>w. Execute p =
        Some (Inr (p\<lparr> instructionPointer := int (length (instructionBuffer p)),
                       Data := (Data p)[nat (DataPointer p) := w] \<rparr>)) \<and>
      uint w =
        (uint (Data p ! nat (DataPointer p)) + int (count_list (instructionBuffer p) InstIncrement)
           - int (count_list (instructionBuffer p) InstDecrement)) mod 256"
    by blast
  have cur: "Current p = Inr ?v"
    using cursor by (simp add: Current_def)
  show "?v = 255 \<longrightarrow> Increment p = Inr (p\<lparr> Data := (Data p)[nat (DataPointer p) := 0] \<rparr>)"
  proof
    assume v: "?v = 255"
    have "?v + 1 = 0" unfolding v by simp
    moreover have "Increment p = Inr (p\<lparr> Data := (Data p)[nat (DataPointer p) := ?v + 1] \<rparr>)"
      using top cur by (simp add: Increment_def)
    ultimately show "Increment p = Inr (p\<lparr> Data := (Data p)[nat (DataPointer p) := 0] \<rparr>)"
      by (simp only:)
  qed
  show "?v = 0 \<longrightarrow> Decrement p = Inr (p\<lparr> Data := (Data p)[nat (DataPointer p) := 255] \<rparr>)"
  proof
    assume v: "?v = 0"
    have "?v - 1 = 255" unfolding v by simp
    moreover have "Decrement p = Inr (p\<lparr> Data := (Data p)[nat (DataPointer p) := ?v - 1] \<rparr>)"
      using top cur by (simp add: Decrement_def)
    ultimately show "Decrement p = Inr (p\<lparr> Data := (Data p)[nat (DataPointer p) := 255] \<rparr>)"
      by (simp only:)
  qed
qed

theorem plus_minus_wrap_witness:
  "Execute (testProcessor ''+-++'' 0 [0, 254] 1 [rootClosure]) =
     Some (Inr (testProcessor ''+-++'' 4 [0, 0] 1 [rootClosure])) \<and>
   Increment (testProcessor ''+'' 0 [255] 0 [rootClosure]) =
     Inr (testProcessor ''+'' 0 [0] 0 [rootClosure]) \<and>
   Decrement (testProcessor ''-'' 0 [0] 0 [rootClosure]) =
     Inr (testProcessor ''-'' 0 [255] 0 [rootClosure])"
proof -
  let ?p = "testProcessor ''+-++'' 0 [0, 254] 1 [rootClosure]"
  have hyps: "set (instructionBuffer ?p) \<subseteq> {InstIncrement, InstDecrement}"
    "instructionPointer ?p = 0" "topSkip ?p = Inr False" "inRange (DataPointer ?p) (Data ?p)"
    by (simp_all add: testProcessor_def rootClosure_def topSkip_def inRange_def inst_defs)
  from plus_minus_wrap [OF hyps, THEN conjunct1] obtain w where
    run: "Execute ?p = Some (Inr (?p\<lparr> instructionPointer := int (length (instructionBuffer ?p)),
                       Data := (Data ?p)[nat (DataPointer ?p) := w] \<rparr>))"
    and w: "uint w = (uint (Data ?p ! nat (DataPointer ?p)) +
           int (count_list (instructionBuffer ?p) InstIncrement)
           - int (count_list (instructionBuffer ?p) InstDecrement)) mod 256"
    by blast
  from w have "uint w = 0"
    by (simp add: testProcessor_def inst_defs)
  then have "w = 0" by (simp add: uint_0_iff)
  with run have "Execute ?p = Some (Inr (testProcessor ''+-++'' 4 [0, 0] 1 [rootClosure]))"
    by (simp add: testProcessor_def)
  then show ?thesis
    using plus_minus_wrap [of "testProcessor ''+'' 0 [255] 0 [rootClosure]"]
      plus_minus_wrap [of "testProcessor ''-'' 0 [0] 0 [rootClosure]"]
    by (simp add: testProcessor_def rootClosure_def topSkip_def inRange_def inst_defs)
qed

section \<open>The cursor stays on the tape\<close>

lemma page_above: "0 \<le> (x :: int) \<Longrightarrow> x < (1 + x div 1024) * 1024"
proof -
  have "x = x div 1024 * 1024 + x mod 1024" by simp
  moreover have "x mod 1024 < 1024" by simp
  ultimately show ?thesis by (simp add: algebra_simps)
qed

lemma ensureDataSize_grows:
  assumes "int (length (Data p)) \<le> DataPointer p"
  shows "int (length (Data (ensureDataSize p))) = (1 + DataPointer p div 1024) * 1024 + 1"
proof -
  from assms have "0 \<le> DataPointer p" by simp
  from page_above [OF this] assms show ?thesis
    by (simp add: ensureDataSize_def DefaultPageSize_def Let_def)
qed

lemma ensureDataSize_shape:
  assumes "0 \<le> DataPointer p"
  shows "\<exists>z. ensureDataSize p = p\<lparr> Data := Data p @ replicate z 0 \<rparr> \<and>
     DataPointer p < int (length (Data p)) + int z \<and>
     (DataPointer p < int (length (Data p)) \<longrightarrow> z = 0)"
proof (cases "int (length (Data p)) \<le> DataPointer p")
  case True
  let ?z = "nat (1 + (1 + DataPointer p div 1024) * 1024 - int (length (Data p)))"
  have "ensureDataSize p = p\<lparr> Data := Data p @ replicate ?z 0 \<rparr>"
    using True by (simp add: ensureDataSize_def DefaultPageSize_def Let_def)
  moreover have "DataPointer p < int (length (Data p)) + int ?z"
    using page_above [OF assms] True by simp
  ultimately show ?thesis using True by (intro exI [of _ ?z]) simp
next
  case False
  then have "ensureDataSize p = p\<lparr> Data := Data p @ replicate 0 0 \<rparr>"
    by (simp add: ensureDataSize_def)
  with False show ?thesis by (intro exI [of _ 0]) simp
qed

lemma ensureDataSize_inRange:
  assumes "0 \<le> DataPointer p"
  shows "inRange (DataPointer (ensureDataSize p)) (Data (ensureDataSize p))"
proof -
  from ensureDataSize_shape [OF assms] obtain z
    where "ensureDataSize p = p\<lparr> Data := Data p @ replicate z 0 \<rparr>"
      and "DataPointer p < int (length (Data p)) + int z"
    by blast
  with assms show ?thesis by (simp add: inRange_def)
qed

lemma ensureDataSize_frame:
  "closures (ensureDataSize p) = closures p"
  "instructionPointer (ensureDataSize p) = instructionPointer p"
  "instructionBuffer (ensureDataSize p) = instructionBuffer p"
  "DataPointer (ensureDataSize p) = DataPointer p"
  "Debug (ensureDataSize p) = Debug p"
  by (simp_all add: ensureDataSize_def Let_def)

lemma inRange_update: "inRange i (xs[k := v]) = inRange i xs"
  by (simp add: inRange_def)

text \<open>Every handler keeps a well-formed state well-formed and never reads out of range.\<close>

lemma dispatch_wellFormed:
  assumes "wellFormed p" and "dispatch c p = Inr p'"
  shows "inRange (DataPointer p') (Data p') \<and> closures p' \<noteq> [] \<and>
    list_all (\<lambda>c. 0 \<le> Start c) (closures p') \<and> 0 \<le> instructionPointer p' \<and>
    instructionBuffer p' = instructionBuffer p"
proof -
  from assms(1) obtain f fs where stack: "closures p = f # fs"
    by (cases "closures p") (auto simp: wellFormed_def)
  from assms(1) have cursor: "inRange (DataPointer p) (Data p)" and ip: "0 \<le> instructionPointer p"
    and starts: "list_all (\<lambda>c. 0 \<le> Start c) (closures p)"
    by (simp_all add: wellFormed_def)
  from cursor have ptr: "0 \<le> DataPointer p" by (simp add: inRange_def)
  have cur: "Current p = Inr (Data p ! nat (DataPointer p))"
    using cursor by (simp add: Current_def)
  have top: "topSkip p = Inr (Skip f)"
    using stack by (simp add: topSkip_def)
  consider "c = InstMoveRight" | "c = InstMoveLeft" | "c = InstDecrement" | "c = InstIncrement"
    | "c = InstInput" | "c = InstOutput" | "c = InstLoopStart" | "c = InstLoopEnd"
    | "c \<notin> {InstMoveRight, InstMoveLeft, InstDecrement, InstIncrement, InstInput, InstOutput,
        InstLoopStart, InstLoopEnd}"
    by blast
  then show ?thesis
  proof cases
    case 1
    show ?thesis
    proof (cases "Skip f")
      case True
      with 1 assms(2) top have "p' = p" by (simp add: dispatch_simps MoveRight_def)
      with stack cursor ip starts show ?thesis by simp
    next
      case False
      with 1 assms(2) top have p': "p' = ensureDataSize (p\<lparr> DataPointer := DataPointer p + 1 \<rparr>)"
        by (simp add: dispatch_simps MoveRight_def)
      have "inRange (DataPointer p') (Data p')"
        unfolding p' using ptr by (intro ensureDataSize_inRange) simp
      with stack ip starts show ?thesis
        by (simp add: p' ensureDataSize_frame)
    qed
  next
    case 2
    with assms(2) top cursor stack ip starts show ?thesis
      by (cases "Skip f") (auto simp: dispatch_simps MoveLeft_def inRange_def split: if_splits)
  next
    case 3
    with assms(2) top cur cursor stack ip starts show ?thesis
      by (cases "Skip f") (auto simp: dispatch_simps Decrement_def inRange_update)
  next
    case 4
    with assms(2) top cur cursor stack ip starts show ?thesis
      by (cases "Skip f") (auto simp: dispatch_simps Increment_def inRange_update)
  next
    case 5
    with assms(2) top cursor stack ip starts show ?thesis
      by (cases "Skip f")
        (auto simp: dispatch_simps Input_def inRange_update split: list.splits if_splits)
  next
    case 6
    with assms(2) top cur cursor stack ip starts show ?thesis
      by (cases "Skip f") (auto simp: dispatch_simps Output_def)
  next
    case 7
    with assms(2) cur cursor stack ip starts show ?thesis
      by (auto simp: dispatch_simps StartLoop_def)
  next
    case 8
    with assms(2) cur cursor stack ip starts show ?thesis
      by (cases fs) (auto simp: dispatch_simps EndLoop_def Let_def split: if_splits)
  next
    case 9
    with assms(2) have "p' = p" by (auto simp: dispatch_def)
    with stack cursor ip starts show ?thesis by simp
  qed
qed

lemma dispatch_no_panic:
  assumes "wellFormed p"
  shows "dispatch c p \<noteq> Inl IndexPanic"
proof -
  from assms obtain f fs where stack: "closures p = f # fs"
    by (cases "closures p") (auto simp: wellFormed_def)
  from assms have cursor: "inRange (DataPointer p) (Data p)"
    by (simp add: wellFormed_def)
  have cur: "Current p = Inr (Data p ! nat (DataPointer p))"
    using cursor by (simp add: Current_def)
  have top: "topSkip p = Inr (Skip f)"
    using stack by (simp add: topSkip_def)
  show ?thesis
    using cursor
    by (cases "Skip f")
      (simp_all add: dispatch_def top cur MoveRight_def MoveLeft_def Decrement_def Increment_def
        Input_def Output_def StartLoop_def EndLoop_def Let_def split: list.splits)
qed

lemma loopBody_wellFormed:
  assumes wf: "wellFormed p"
    and live: "instructionPointer p < int (length (instructionBuffer p))"
  shows "case loopBody p of Inl e \<Rightarrow> e \<noteq> IndexPanic
     | Inr p' \<Rightarrow> wellFormed p' \<and> instructionBuffer p' = instructionBuffer p"
proof -
  let ?c = "instructionBuffer p ! nat (instructionPointer p)"
  from wf have cursor: "inRange (DataPointer p) (Data p)" and ip: "0 \<le> instructionPointer p"
    by (simp_all add: wellFormed_def)
  have body: "loopBody p =
     (case dispatch ?c p of Inl e \<Rightarrow> Inl e
      | Inr p' \<Rightarrow> Inr (p'\<lparr> instructionPointer := instructionPointer p' + 1 \<rparr>))"
    using cursor ip by (simp add: loopBody_def)
  show ?thesis
  proof (cases "dispatch ?c p")
    case (Inl e)
    with dispatch_no_panic [OF wf, of ?c] show ?thesis by (simp add: body)
  next
    case (Inr p')
    from dispatch_wellFormed [OF wf Inr] show ?thesis
      by (simp add: body Inr wellFormed_def)
  qed
qed

lemma passes_wellFormed:
  "wellFormed p \<Longrightarrow>
   (case passes n p of Inl e \<Rightarrow> e \<noteq> IndexPanic
    | Inr p' \<Rightarrow> wellFormed p' \<and> instructionBuffer p' = instructionBuffer p)"
proof (induction n arbitrary: p)
  case 0
  then show ?case by simp
next
  case (Suc n)
  show ?case
  proof (cases "instructionPointer p < int (length (instructionBuffer p))")
    case False
    with Suc.prems show ?thesis by simp
  next
    case True
    show ?thesis
    proof (cases "loopBody p")
      case (Inl e)
      with loopBody_wellFormed [OF Suc.prems True] True show ?thesis by simp
    next
      case (Inr q)
      with loopBody_wellFormed [OF Suc.prems True]
      have q: "wellFormed q" "instructionBuffer q = instructionBuffer p" by simp_all
      from Suc.IH [OF q(1)] q(2) True Inr show ?thesis
        by (simp split: sum.splits)
    qed
  qed
qed

lemma NewProcessor_wellFormed: "wellFormed (Load prog ((NewProcessor console)\<lparr> Debug := dbg \<rparr>))"
  by (simp add: wellFormed_def Load_def NewProcessor_def inRange_def DefaultPageSize_def)

lemma moveRight_passes:
  assumes buf: "instructionBuffer p = replicate m InstMoveRight"
    and ip: "instructionPointer p = 0"
    and top: "topSkip p = Inr False"
    and cursor: "inRange (DataPointer p) (Data p)"
  shows "k \<le> m \<Longrightarrow>
    \<exists>D. passes k p =
        Inr (p\<lparr> instructionPointer := int k, DataPointer := DataPointer p + int k, Data := D \<rparr>) \<and>
      DataPointer p + int k < int (length D) \<and>
      (DataPointer p + int k < int (length (Data p)) \<longrightarrow> D = Data p)"
proof (induction k)
  case 0
  show ?case
    using ip cursor by (intro exI [of _ "Data p"]) (simp add: inRange_def)
next
  case (Suc k)
  then have k: "k < m" by simp
  with Suc.IH obtain D where
    before: "passes k p =
        Inr (p\<lparr> instructionPointer := int k, DataPointer := DataPointer p + int k, Data := D \<rparr>)"
    and len: "DataPointer p + int k < int (length D)"
    and same: "DataPointer p + int k < int (length (Data p)) \<longrightarrow> D = Data p"
    by auto
  let ?q = "p\<lparr> instructionPointer := int k, DataPointer := DataPointer p + int k, Data := D \<rparr>"
  from cursor have ptr: "0 \<le> DataPointer p" by (simp add: inRange_def)
  have at: "atInstruction ?q InstMoveRight"
    using k buf by (simp add: atInstruction_def inRange_def)
  have cursor': "inRange (DataPointer ?q) (Data ?q)"
    using ptr len by (simp add: inRange_def)
  have top': "topSkip ?q = Inr False"
    using top by (simp add: topSkip_def)
  let ?r = "?q\<lparr> DataPointer := DataPointer p + int k + 1 \<rparr>"
  have "0 \<le> DataPointer ?r" using ptr by simp
  from ensureDataSize_shape [OF this] obtain z where
    grow: "ensureDataSize ?r = ?r\<lparr> Data := Data ?r @ replicate z 0 \<rparr>"
    and above: "DataPointer ?r < int (length (Data ?r)) + int z"
    and none: "DataPointer ?r < int (length (Data ?r)) \<longrightarrow> z = 0"
    by blast
  let ?D' = "D @ replicate z 0"
  have "MoveRight ?q = Inr (ensureDataSize ?r)"
    using top' by (simp add: MoveRight_def)
  with loopBody_dispatch [OF at cursor']
  have "loopBody ?q = Inr ((ensureDataSize ?r)\<lparr> instructionPointer :=
      instructionPointer (ensureDataSize ?r) + 1 \<rparr>)"
    by (simp add: dispatch_simps)
  also have "(ensureDataSize ?r)\<lparr> instructionPointer :=
      instructionPointer (ensureDataSize ?r) + 1 \<rparr> =
      p\<lparr> instructionPointer := int (Suc k), DataPointer := DataPointer p + int (Suc k),
         Data := ?D' \<rparr>"
    unfolding grow by (simp add: add.assoc)
  finally have "loopBody ?q =
      Inr (p\<lparr> instructionPointer := int (Suc k), DataPointer := DataPointer p + int (Suc k),
              Data := ?D' \<rparr>)" .
  moreover have "instructionPointer ?q < int (length (instructionBuffer ?q))"
    using k buf by simp
  ultimately have "passes 1 ?q =
      Inr (p\<lparr> instructionPointer := int (Suc k), DataPointer := DataPointer p + int (Suc k),
              Data := ?D' \<rparr>)"
    by simp
  with before have "passes (Suc k) p =
      Inr (p\<lparr> instructionPointer := int (Suc k), DataPointer := DataPointer p + int (Suc k),
              Data := ?D' \<rparr>)"
    using passes_add [of k 1 p] by (simp del: passes.simps)
  moreover have "DataPointer p + int (Suc k) < int (length ?D')"
    using above by simp
  moreover have "?D' = Data p" if "DataPointer p + int (Suc k) < int (length (Data p))"
  proof -
    from that same have "D = Data p" by simp
    with that none show ?thesis by simp
  qed
  ultimately show ?case by blast
qed

text \<open>
  Claim C6. Run any program on a new processor, with or without the debug trace. After
  every pass of the dispatch loop, so after every \<^verbatim>\<open>>\<close> and every \<^verbatim>\<open><\<close>, the cursor
  is a valid index into the tape (\<open>0 \<le> cursor < length\<close>), and no run is aborted by an
  index out of range. In particular a program of \<open>m\<close> instructions \<^verbatim>\<open>>\<close>, however
  long, ends normally with the cursor at \<open>m\<close>, on the tape.
\<close>

theorem cursor_always_valid:
  "(case passes n (Load prog ((NewProcessor console)\<lparr> Debug := dbg \<rparr>)) of
      Inl e \<Rightarrow> e \<noteq> IndexPanic
    | Inr p \<Rightarrow> inRange (DataPointer p) (Data p)) \<and>
   (\<exists>p. Execute (Load (replicate m InstMoveRight) ((NewProcessor console)\<lparr> Debug := dbg \<rparr>)) =
          Some (Inr p) \<and>
        DataPointer p = int m \<and> inRange (DataPointer p) (Data p))"
proof
  have "wellFormed (Load prog ((NewProcessor console)\<lparr> Debug := dbg \<rparr>))"
    by (rule NewProcessor_wellFormed)
  from passes_wellFormed [OF this, of n]
  show "case passes n (Load prog ((NewProcessor console)\<lparr> Debug := dbg \<rparr>)) of
      Inl e \<Rightarrow> e \<noteq> IndexPanic
    | Inr p \<Rightarrow> inRange (DataPointer p) (Data p)"
    by (simp add: wellFormed_def split: sum.splits)
next
  let ?p = "Load (replicate m InstMoveRight) ((NewProcessor console)\<lparr> Debug := dbg \<rparr>)"
  have "\<exists>D. passes m ?p =
        Inr (?p\<lparr> instructionPointer := int m, DataPointer := DataPointer ?p + int m, Data := D \<rparr>) \<and>
      DataPointer ?p + int m < int (length D) \<and>
      (DataPointer ?p + int m < int (length (Data ?p)) \<longrightarrow> D = Data ?p)"
    by (rule moveRight_passes [where m = m])
      (simp_all add: Load_def NewProcessor_def topSkip_def inRange_def DefaultPageSize_def)
  then obtain D where
    run: "passes m ?p = Inr (?p\<lparr> instructionPointer := int m,
        DataPointer := DataPointer ?p + int m, Data := D \<rparr>)"
    and len: "DataPointer ?p + int m < int (length D)"
    by blast
  let ?q = "?p\<lparr> instructionPointer := int m, DataPointer := DataPointer ?p + int m, Data := D \<rparr>"
  have "Execute ?p = Execute ?q" using run by (rule Execute_passes)
  also have "\<dots> = Some (Inr ?q)"
    by (rule Execute_halt) (simp add: Load_def)
  finally have "Execute ?p = Some (Inr ?q)" .
  moreover have "DataPointer ?q = int m"
    by (simp add: Load_def NewProcessor_def)
  moreover have "inRange (DataPointer ?q) (Data ?q)"
    using len by (simp add: inRange_def Load_def NewProcessor_def)
  ultimately show "\<exists>p. Execute ?p = Some (Inr p) \<and> DataPointer p = int m \<and>
      inRange (DataPointer p) (Data p)"
    by blast
qed

section \<open>The length of the tape after it has grown\<close>

text \<open>
  Claim C3 says that the tape, when it grows, has a length that is a multiple of the page
  size 1024 and greater than the cursor. The second half holds (\<open>ensureDataSize_shape\<close>
  above). The first does not: \<^verbatim>\<open>ensureDataSize\<close> appends \<open>1 + nextPagedSize - len\<close>
  cells, so the new length is one more than a multiple of the page size
  (\<open>ensureDataSize_grows\<close> above). The program of 1024 instructions \<^verbatim>\<open>>\<close>, run on a
  new processor, ends with the cursor at 1024 and a tape of 2049 cells.
\<close>

theorem growth_not_page_multiple:
  "\<exists>p. Execute (Load (replicate 1024 InstMoveRight) (NewProcessor [])) = Some (Inr p) \<and>
     DataPointer p = 1024 \<and> length (Data p) = 2049 \<and> \<not> 1024 dvd length (Data p)"
proof -
  let ?p = "Load (replicate 1024 InstMoveRight) (NewProcessor [])"
  have "\<exists>D. passes 1023 ?p =
        Inr (?p\<lparr> instructionPointer := int 1023, DataPointer := DataPointer ?p + int 1023,
                 Data := D \<rparr>) \<and>
      DataPointer ?p + int 1023 < int (length D) \<and>
      (DataPointer ?p + int 1023 < int (length (Data ?p)) \<longrightarrow> D = Data ?p)"
    by (rule moveRight_passes [where m = 1024])
      (simp_all add: Load_def NewProcessor_def topSkip_def inRange_def DefaultPageSize_def)
  then have before: "passes 1023 ?p =
      Inr (?p\<lparr> instructionPointer := 1023, DataPointer := 1023 \<rparr>)"
    by (auto simp: Load_def NewProcessor_def DefaultPageSize_def)
  let ?q = "?p\<lparr> instructionPointer := 1023, DataPointer := 1023 \<rparr>"
  let ?r = "?p\<lparr> instructionPointer := 1024, DataPointer := 1024,
      Data := replicate 1024 0 @ replicate 1025 0 \<rparr>"
  have "atInstruction ?q InstMoveRight"
    by (simp add: atInstruction_def inRange_def Load_def)
  moreover have "inRange (DataPointer ?q) (Data ?q)"
    by (simp add: inRange_def Load_def NewProcessor_def DefaultPageSize_def)
  ultimately have "loopBody ?q = Inr ?r"
    by (simp add: loopBody_dispatch dispatch_simps MoveRight_def topSkip_def ensureDataSize_def
        Load_def NewProcessor_def DefaultPageSize_def)
  moreover have "instructionPointer ?q < int (length (instructionBuffer ?q))"
    by (simp add: Load_def)
  ultimately have "passes 1 ?q = Inr ?r"
    by simp
  with before have "passes (1023 + 1) ?p = Inr ?r"
    by (simp only: passes_add sum.case)
  then have "Execute ?p = Execute ?r" by (rule Execute_passes)
  also have "\<dots> = Some (Inr ?r)"
    by (rule Execute_halt) (simp add: Load_def)
  finally have "Execute ?p = Some (Inr ?r)" .
  moreover have "DataPointer ?r = 1024" by simp
  moreover have "length (Data ?r) = 2049" by simp
  ultimately show ?thesis by (intro exI [of _ ?r]) simp
qed

section \<open>Termination\<close>





lemma dispatch_straight:
  assumes "c \<noteq> InstLoopEnd" and "dispatch c p = Inr p'"
  shows "instructionPointer p' = instructionPointer p \<and>
    instructionBuffer p' = instructionBuffer p"
  using assms
  by (auto simp: dispatch_def MoveRight_def MoveLeft_def Decrement_def Increment_def Input_def
      Output_def StartLoop_def ensureDataSize_frame split: sum.splits bool.splits list.splits
      if_splits)

lemma loop_free_passes:
  "InstLoopEnd \<notin> set (instructionBuffer p) \<Longrightarrow>
   nat (int (length (instructionBuffer p)) - instructionPointer p) = n \<Longrightarrow>
   Execute p = Some (passes n p)"
proof (induction n arbitrary: p)
  case 0
  then have "\<not> instructionPointer p < int (length (instructionBuffer p))" by simp
  then show ?case by (simp add: Execute_halt)
next
  case (Suc n)
  then have live: "instructionPointer p < int (length (instructionBuffer p))" by simp
  show ?case
  proof (cases "loopBody p")
    case (Inl e)
    with live show ?thesis by (simp add: Execute_abort)
  next
    case (Inr q)
    have ip: "0 \<le> instructionPointer p"
      using Inr by (auto simp: loopBody_def split: if_splits)
    let ?c = "instructionBuffer p ! nat (instructionPointer p)"
    from ip live have "?c \<in> set (instructionBuffer p)"
      by (intro nth_mem) simp
    with Suc.prems(1) have c: "?c \<noteq> InstLoopEnd" by auto
    from Inr obtain p' where d: "dispatch ?c p = Inr p'"
      and q: "q = p'\<lparr> instructionPointer := instructionPointer p' + 1 \<rparr>"
      by (auto simp: loopBody_def Let_def split: if_splits sum.splits)
    from dispatch_straight [OF c d] q
    have same: "instructionPointer q = instructionPointer p + 1"
      "instructionBuffer q = instructionBuffer p"
      by simp_all
    have "Execute q = Some (passes n q)"
    proof (rule Suc.IH)
      show "InstLoopEnd \<notin> set (instructionBuffer q)"
        using same Suc.prems(1) by simp
      show "nat (int (length (instructionBuffer q)) - instructionPointer q) = n"
        using same Suc.prems(2) by simp
    qed
    with Execute_pass [OF live Inr] live Inr show ?thesis by simp
  qed
qed

text \<open>
  Only a \<^verbatim>\<open>]\<close> moves the instruction pointer back: a program without \<^verbatim>\<open>]\<close>
  leaves the dispatch loop, from any state, after at most as many passes as there are
  instructions from the instruction pointer to the end of the buffer.
\<close>

lemma loop_free_terminates:
  assumes "InstLoopEnd \<notin> set (instructionBuffer p)"
  shows "Execute p =
    Some (passes (nat (int (length (instructionBuffer p)) - instructionPointer p)) p)"
  using assms by (rule loop_free_passes) simp

subsection \<open>The loop stack of a balanced program\<close>






















section \<open>The end of the program\<close>

lemma main_flags_ExpectEnd:
  assumes "Execute (Load input ((NewProcessor console)\<lparr> Debug := flagDebug \<rparr>)) = Some (Inr p)"
  shows "main_flags flagDebug input console =
    Some (if 1 < length (closures p) then Inl UnterminatedLoopError else Inr p)"
  using assms by (simp add: main_flags_def ExpectEnd_def)

text \<open>
  Claim C4 says that \<^verbatim>\<open>ExpectEnd\<close> is called when the instruction buffer is exhausted,
  so that a program with an unmatched \<^verbatim>\<open>[\<close> fails with \<open>UnterminatedLoopError\<close>. The
  \<^verbatim>\<open>main\<close> with the command line flags does that (\<open>main_flags_ExpectEnd\<close> above). The
  other \<^verbatim>\<open>main\<close> returns after \<^verbatim>\<open>Execute\<close>: on the program \<^verbatim>\<open>[\<close> it ends normally,
  with the closure of the open loop still on the stack, where the first fails.
\<close>

theorem main_leaves_loop_open:
  "main ''['' [] =
     Some (Inr ((Load ''['' (NewProcessor []))\<lparr> instructionPointer := 1,
        closures := [\<lparr> Skip = True, Root = False, Start = 0 \<rparr>,
                     \<lparr> Skip = False, Root = True, Start = 0 \<rparr>] \<rparr>)) \<and>
   main_flags False ''['' [] = Some (Inl UnterminatedLoopError)"
proof -
  let ?p = "Load ''['' (NewProcessor [])"
  let ?r = "?p\<lparr> instructionPointer := 1,
        closures := [\<lparr> Skip = True, Root = False, Start = 0 \<rparr>,
                     \<lparr> Skip = False, Root = True, Start = 0 \<rparr>] \<rparr>"
  have "passes 1 ?p = Inr ?r"
    by (simp add: loopBody_def dispatch_def inst_defs StartLoop_def Current_def inRange_def
        Load_def NewProcessor_def DefaultPageSize_def)
  then have "Execute ?p = Execute ?r" by (rule Execute_passes)
  also have "\<dots> = Some (Inr ?r)"
    by (rule Execute_halt) (simp add: Load_def)
  finally have run: "Execute ?p = Some (Inr ?r)" .
  have "(NewProcessor [])\<lparr> Debug := False \<rparr> = NewProcessor []"
    by (simp add: NewProcessor_def)
  with run have "main_flags False ''['' [] =
      Some (if 1 < length (closures ?r) then Inl UnterminatedLoopError else Inr ?r)"
    by (intro main_flags_ExpectEnd) simp
  with run show ?thesis
    by (simp add: main_def)
qed

section \<open>Load\<close>

text \<open>
  Claim C10. \<^verbatim>\<open>Load\<close> replaces the instruction buffer and sets the instruction pointer
  to 0; the tape, the cursor, the loop stack, the input still unread, the output written
  and the debug flag keep the values they had. A second \<^verbatim>\<open>Load\<close> and \<^verbatim>\<open>Execute\<close> on
  the same processor therefore starts from the tape and the loop stack the first run left.
\<close>

theorem Load_frame:
  "instructionBuffer (Load instructions p) = instructions \<and>
   instructionPointer (Load instructions p) = 0 \<and>
   Data (Load instructions p) = Data p \<and>
   DataPointer (Load instructions p) = DataPointer p \<and>
   closures (Load instructions p) = closures p \<and>
   stdin (Load instructions p) = stdin p \<and>
   stdout (Load instructions p) = stdout p \<and>
   Debug (Load instructions p) = Debug p"
  by (simp add: Load_def)

text \<open>
  A second run on the same processor: after \<^verbatim>\<open>+[\<close> the first cell holds 1 and a loop
  is open, so \<^verbatim>\<open>-]\<close> then closes that loop and ends normally, where on a new
  processor it is aborted at the \<^verbatim>\<open>]\<close>.
\<close>

theorem Load_frame_witness:
  "Execute (Load ''+['' (NewProcessor [])) =
     Some (Inr ((NewProcessor [])\<lparr> instructionBuffer := ''+['', instructionPointer := 2,
        Data := (replicate 1024 0)[0 := 1],
        closures := [\<lparr> Skip = False, Root = False, Start = 1 \<rparr>,
                     \<lparr> Skip = False, Root = True, Start = 0 \<rparr>] \<rparr>)) \<and>
   Execute (Load ''-]'' ((NewProcessor [])\<lparr> instructionBuffer := ''+['', instructionPointer := 2,
        Data := (replicate 1024 0)[0 := 1],
        closures := [\<lparr> Skip = False, Root = False, Start = 1 \<rparr>,
                     \<lparr> Skip = False, Root = True, Start = 0 \<rparr>] \<rparr>)) =
     Some (Inr ((NewProcessor [])\<lparr> instructionBuffer := ''-]'', instructionPointer := 2 \<rparr>)) \<and>
   Execute (Load ''-]'' (NewProcessor [])) = Some (Inl UnbalancedLoopError)"
proof -
  let ?new = "NewProcessor []"
  let ?r = "?new\<lparr> instructionBuffer := ''+['', instructionPointer := 2,
        Data := (replicate 1024 0)[0 := 1],
        closures := [\<lparr> Skip = False, Root = False, Start = 1 \<rparr>,
                     \<lparr> Skip = False, Root = True, Start = 0 \<rparr>] \<rparr>"
  let ?r' = "?new\<lparr> instructionBuffer := ''-]'', instructionPointer := 2 \<rparr>"
  note defs = loopBody_def dispatch_def inst_defs Increment_def Decrement_def StartLoop_def
    EndLoop_def topSkip_def Current_def inRange_def NewProcessor_def DefaultPageSize_def
  have "passes 2 (Load ''+['' ?new) = Inr ?r"
    by (simp add: numeral_2_eq_2 Load_def defs)
  then have "Execute (Load ''+['' ?new) = Execute ?r" by (rule Execute_passes)
  also have "\<dots> = Some (Inr ?r)" by (rule Execute_halt) simp
  finally have first: "Execute (Load ''+['' ?new) = Some (Inr ?r)" .
  from Load_frame [of "''-]''" ?r]
  have kept: "Data (Load ''-]'' ?r) = (replicate 1024 0)[0 := 1]"
    "closures (Load ''-]'' ?r) = [\<lparr> Skip = False, Root = False, Start = 1 \<rparr>,
                     \<lparr> Skip = False, Root = True, Start = 0 \<rparr>]"
    "DataPointer (Load ''-]'' ?r) = 0"
    "instructionBuffer (Load ''-]'' ?r) = ''-]''" "instructionPointer (Load ''-]'' ?r) = 0"
    "Debug (Load ''-]'' ?r) = False"
    by (simp_all add: NewProcessor_def)
  have "passes 2 (Load ''-]'' ?r) = Inr ?r'"
    by (simp add: numeral_2_eq_2 kept loopBody_def dispatch_def inst_defs Decrement_def
        EndLoop_def topSkip_def Current_def inRange_def)
      (simp add: Load_def NewProcessor_def DefaultPageSize_def replicate_update_same)
  then have "Execute (Load ''-]'' ?r) = Execute ?r'" by (rule Execute_passes)
  also have "\<dots> = Some (Inr ?r')" by (rule Execute_halt) simp
  finally have second: "Execute (Load ''-]'' ?r) = Some (Inr ?r')" .
  have "passes 2 (Load ''-]'' ?new) = Inl UnbalancedLoopError"
    by (simp add: numeral_2_eq_2 Load_def defs)
  then have "Execute (Load ''-]'' ?new) = Some (Inl UnbalancedLoopError)"
    by (rule Execute_passes_abort)
  with first second show ?thesis by simp
qed

end
